theory Spec2Isabelle
  imports Main
begin

section \<open>Data model (models.py)\<close>

text \<open>
  The four states of a work item (\<^verbatim>\<open>class ItemState\<close>).
\<close>

datatype ItemState = TODO | DOING | DONE | BLOCKED

text \<open>
  A \<^verbatim>\<open>datetime\<close> is kept abstract as a natural number read off a clock.
\<close>

type_synonym datetime = nat

record ItemStatus =
  state :: ItemState
  attempts :: int
  last_error :: "string option"
  done_at :: "datetime option"

text \<open>
  The field \<^verbatim>\<open>id\<close> of \<^verbatim>\<open>WorkItem\<close> is called \<open>item_id\<close> here, and the field
  \<^verbatim>\<open>verify\<close> of \<^verbatim>\<open>GlobalConfig\<close> is called \<open>global_verify\<close>, because record
  fields are constants of the theory.
\<close>

record WorkItem =
  item_id :: string
  title :: string
  description :: string
  acceptance_criteria :: "string list"
  files_hint :: "string list"
  verify :: "string list option"
  status :: ItemStatus

record ProjectMeta =
  name :: string
  language :: string
  default_branch :: string

record GlobalConfig =
  global_verify :: "string list"

record PRD =
  version :: int
  project :: ProjectMeta
  global_config :: GlobalConfig
  items :: "WorkItem list"

text \<open>
  The scan \<^verbatim>\<open>for item in self.items: if <test>: return item\<close>. Python returns a
  reference to the element of \<^verbatim>\<open>self.items\<close>, which the caller then mutates in
  place; the model returns the position of that element in the list.
\<close>

fun first_index :: "('a \<Rightarrow> bool) \<Rightarrow> 'a list \<Rightarrow> nat option" where
  "first_index P [] = None"
| "first_index P (x # xs) = (if P x then Some 0 else map_option Suc (first_index P xs))"

text \<open>
  \<^verbatim>\<open>PRD.get_next_item\<close>: the first item in state doing (resuming), otherwise the
  first item in state todo (fresh start), otherwise \<^verbatim>\<open>(None, False)\<close>.
\<close>

definition get_next_item :: "PRD \<Rightarrow> nat option \<times> bool" where
  "get_next_item prd =
     (case first_index (\<lambda>item. state (status item) = DOING) (items prd) of
        Some i \<Rightarrow> (Some i, True)
      | None \<Rightarrow>
          (case first_index (\<lambda>item. state (status item) = TODO) (items prd) of
             Some i \<Rightarrow> (Some i, False)
           | None \<Rightarrow> (None, False)))"

text \<open>\<^verbatim>\<open>PRD.all_done\<close>: every item is done or blocked.\<close>

definition all_done :: "PRD \<Rightarrow> bool" where
  "all_done prd =
     list_all (\<lambda>item. state (status item) = DONE \<or> state (status item) = BLOCKED) (items prd)"

text \<open>
  \<^verbatim>\<open>PRD.count_by_state\<close>: a dictionary with one counter per state, all starting
  at zero, incremented once per item.
\<close>

definition count_by_state :: "PRD \<Rightarrow> ItemState \<Rightarrow> int" where
  "count_by_state prd =
     fold (\<lambda>item counts. counts(state (status item) := counts (state (status item)) + 1))
       (items prd) (\<lambda>_. 0)"

section \<open>Python helpers\<close>

text \<open>
  \<^verbatim>\<open>str(n)\<close> for an integer: decimal digits, with a minus sign for a negative number.
\<close>

fun str_nat :: "nat \<Rightarrow> string" where
  "str_nat n =
     (if n < 10 then [''0123456789'' ! n]
      else str_nat (n div 10) @ [''0123456789'' ! (n mod 10)])"

declare str_nat.simps [simp del]

definition str_int :: "int \<Rightarrow> string" where
  "str_int i = (if i < 0 then CHR ''-'' # str_nat (nat (- i)) else str_nat (nat i))"

text \<open>\<^verbatim>\<open>sep.join(parts)\<close>.\<close>

fun join :: "string \<Rightarrow> string list \<Rightarrow> string" where
  "join sep [] = []"
| "join sep [x] = x"
| "join sep (x # y # ys) = x @ sep @ join sep (y # ys)"

text \<open>The slice \<^verbatim>\<open>s[-n:]\<close>: the last \<open>n\<close> characters, or all of \<open>s\<close> when it is shorter.\<close>

definition last_chars :: "nat \<Rightarrow> string \<Rightarrow> string" where
  "last_chars n s = drop (length s - n) s"

section \<open>The outside world (harness.py)\<close>

text \<open>
  A call that may raise: it either returns a value or raises an exception, of which
  only the text \<^verbatim>\<open>str(e)\<close> is used by the harness.
\<close>

datatype 'a attempt = Returned 'a | Raised string

text \<open>
  \<^verbatim>\<open>load_prd\<close> raises \<^verbatim>\<open>FileNotFoundError\<close> when the file is missing,
  \<^verbatim>\<open>json.JSONDecodeError\<close> when it is not JSON, and a validation error when it does
  not fit the schema.
\<close>

datatype load_error = FileNotFoundError | JSONDecodeError | ValidationError

text \<open>
  Every action of the harness on its surroundings is appended to a trace, in the order
  in which the source performs it: a write of \<^verbatim>\<open>prd.json\<close>, a line appended to the
  progress log (with the timestamp read for it), and the three kinds of subprocess
  (\<^verbatim>\<open>opencode\<close> with its argument list, a verification command run through the shell,
  \<^verbatim>\<open>git\<close> with its arguments).
\<close>

datatype effect =
    SavePrd PRD
  | AppendProgress datetime string
  | RunAgent "string list"
  | RunShell string
  | RunGit "string list"

text \<open>
  The collaborators are functions on an external state of any type \<open>'x\<close> (the working
  tree, the agent, the clock): each takes the state and returns its answer with the next
  state. \<open>git\<close> gives the return code of a \<^verbatim>\<open>git\<close> command line; \<open>shell\<close> gives return code,
  stdout and stderr of a shell command, or the exception of \<^verbatim>\<open>subprocess.run\<close>;
  \<open>opencode\<close> gives the return code of the agent process, or the exception; \<open>now\<close> is
  \<^verbatim>\<open>datetime.now(timezone.utc)\<close>. \<open>build_agent_prompt\<close> is the prompt template of
  the source, a pure function of the item and the document, taken as a parameter.
\<close>

record 'x env =
  git :: "string list \<Rightarrow> 'x \<Rightarrow> int \<times> 'x"
  shell :: "string \<Rightarrow> 'x \<Rightarrow> (int \<times> string \<times> string) attempt \<times> 'x"
  opencode :: "string list \<Rightarrow> 'x \<Rightarrow> int attempt \<times> 'x"
  now :: "'x \<Rightarrow> datetime \<times> 'x"
  build_agent_prompt :: "WorkItem \<Rightarrow> PRD \<Rightarrow> string"

text \<open>
  The state the harness runs in: what \<^verbatim>\<open>.ralph/prd.json\<close> loads to (a document, or
  the exception \<^verbatim>\<open>load_prd\<close> raises), the trace of effects so far, and the external
  state. During a run the file is written by \<^verbatim>\<open>save_prd\<close> only: whatever the agent
  or a verification command writes to it is overwritten by the \<^verbatim>\<open>save_prd\<close> that
  ends the iteration, and edits by other processes are outside the model.
\<close>

record 'x world =
  disk :: "load_error + PRD"
  trace :: "effect list"
  ext :: 'x

definition BLOCKED_THRESHOLD :: int where
  "BLOCKED_THRESHOLD = 3"

definition load_prd :: "'x world \<Rightarrow> load_error + PRD" where
  "load_prd w = disk w"

definition save_prd :: "PRD \<Rightarrow> 'x world \<Rightarrow> 'x world" where
  "save_prd prd w = w\<lparr>disk := Inr prd, trace := trace w @ [SavePrd prd]\<rparr>"

definition append_progress :: "'x env \<Rightarrow> string \<Rightarrow> 'x world \<Rightarrow> 'x world" where
  "append_progress e message w =
     (case now e (ext w) of
        (timestamp, x) \<Rightarrow> w\<lparr>trace := trace w @ [AppendProgress timestamp message], ext := x\<rparr>)"

text \<open>The three \<^verbatim>\<open>subprocess.run\<close> calls, each recorded in the trace.\<close>

definition run_git :: "'x env \<Rightarrow> string list \<Rightarrow> 'x world \<Rightarrow> int \<times> 'x world" where
  "run_git e args w =
     (case git e args (ext w) of
        (rc, x) \<Rightarrow> (rc, w\<lparr>trace := trace w @ [RunGit args], ext := x\<rparr>))"

definition run_shell ::
  "'x env \<Rightarrow> string \<Rightarrow> 'x world \<Rightarrow> (int \<times> string \<times> string) attempt \<times> 'x world" where
  "run_shell e cmd w =
     (case shell e cmd (ext w) of
        (r, x) \<Rightarrow> (r, w\<lparr>trace := trace w @ [RunShell cmd], ext := x\<rparr>))"

definition run_opencode :: "'x env \<Rightarrow> string list \<Rightarrow> 'x world \<Rightarrow> int attempt \<times> 'x world" where
  "run_opencode e argv w =
     (case opencode e argv (ext w) of
        (r, x) \<Rightarrow> (r, w\<lparr>trace := trace w @ [RunAgent argv], ext := x\<rparr>))"

definition is_git_repo :: "'x env \<Rightarrow> 'x world \<Rightarrow> bool \<times> 'x world" where
  "is_git_repo e w =
     (case run_git e [''git'', ''rev-parse'', ''--git-dir''] w of (rc, w1) \<Rightarrow> (rc = 0, w1))"

text \<open>
  \<^verbatim>\<open>git_commit\<close>: \<^verbatim>\<open>check=True\<close> raises \<^verbatim>\<open>CalledProcessError\<close> on a non-zero
  return code, which the \<^verbatim>\<open>except\<close> turns into \<^verbatim>\<open>False\<close>.
\<close>

definition git_commit :: "'x env \<Rightarrow> string \<Rightarrow> 'x world \<Rightarrow> bool \<times> 'x world" where
  "git_commit e message w =
     (case run_git e [''git'', ''add'', ''-A''] w of
        (rc1, w1) \<Rightarrow>
          if rc1 \<noteq> 0 then (False, w1)
          else
            (case run_git e [''git'', ''diff'', ''--cached'', ''--quiet''] w1 of
               (rc2, w2) \<Rightarrow>
                 if rc2 = 0 then (True, w2)
                 else
                   (case run_git e [''git'', ''commit'', ''-m'', message] w2 of
                      (rc3, w3) \<Rightarrow> if rc3 \<noteq> 0 then (False, w3) else (True, w3))))"

subsection \<open>Verification runner\<close>

text \<open>One entry of the \<^verbatim>\<open>results\<close> list of \<^verbatim>\<open>run_verification\<close> (a dictionary there).\<close>

record verify_result =
  command :: string
  passed :: bool
  returncode :: int
  stdout :: string
  stderr :: string

text \<open>
  The entry the body of the \<^verbatim>\<open>for cmd in commands\<close> loop appends to
  \<^verbatim>\<open>results\<close>: from the completed process in the \<^verbatim>\<open>try\<close> branch, from the
  exception in the \<^verbatim>\<open>except\<close> branch.
\<close>

definition result_entry :: "string \<Rightarrow> (int \<times> string \<times> string) attempt \<Rightarrow> verify_result" where
  "result_entry cmd r =
     (case r of
        Returned (rc, out, err) \<Rightarrow>
          \<lparr>command = cmd, passed = (rc = 0), returncode = rc,
           stdout = (if out \<noteq> [] then last_chars 2000 out else []),
           stderr = (if err \<noteq> [] then last_chars 2000 err else [])\<rparr>
      | Raised msg \<Rightarrow>
          \<lparr>command = cmd, passed = False, returncode = - 1, stdout = [], stderr = msg\<rparr>)"

text \<open>
  The loop body: run the command through the shell and build its entry. The loop below
  sets \<^verbatim>\<open>all_passed\<close> to \<^verbatim>\<open>False\<close> exactly when the entry has \<^verbatim>\<open>passed\<close> false.
\<close>

definition run_command :: "'x env \<Rightarrow> string \<Rightarrow> 'x world \<Rightarrow> verify_result \<times> 'x world" where
  "run_command e cmd w =
     (case run_shell e cmd w of (r, w1) \<Rightarrow> (result_entry cmd r, w1))"

fun verification_loop ::
  "'x env \<Rightarrow> string list \<Rightarrow> bool \<Rightarrow> verify_result list \<Rightarrow> 'x world
     \<Rightarrow> (bool \<times> verify_result list) \<times> 'x world" where
  "verification_loop e [] all_passed results w = ((all_passed, results), w)"
| "verification_loop e (cmd # cmds) all_passed results w =
     (case run_command e cmd w of
        (r, w1) \<Rightarrow>
          verification_loop e cmds (if passed r then all_passed else False) (results @ [r]) w1)"

definition run_verification ::
  "'x env \<Rightarrow> string list \<Rightarrow> 'x world \<Rightarrow> (bool \<times> verify_result list) \<times> 'x world" where
  "run_verification e commands w = verification_loop e commands True [] w"


subsection \<open>Agent runner\<close>

definition run_agent ::
  "'x env \<Rightarrow> string \<Rightarrow> string \<Rightarrow> 'x world \<Rightarrow> (bool \<times> string) \<times> 'x world" where
  "run_agent e prompt model w =
     (case run_opencode e [''opencode'', ''-m'', model, ''run'', prompt] w of
        (Returned rc, w1) \<Rightarrow>
          (if rc \<noteq> 0 then (False, ''Exit code '' @ str_int rc) else (True, []), w1)
      | (Raised msg, w1) \<Rightarrow> ((False, msg), w1))"

subsection \<open>The loop\<close>

text \<open>
  \<^verbatim>\<open>item.status.<field> = v\<close>, where \<^verbatim>\<open>item\<close> is the element of \<^verbatim>\<open>prd.items\<close> at
  position \<open>i\<close>: the assignment changes the document the item belongs to.
\<close>

definition update_status :: "nat \<Rightarrow> (ItemStatus \<Rightarrow> ItemStatus) \<Rightarrow> PRD \<Rightarrow> PRD" where
  "update_status i f prd =
     prd\<lparr>items := (items prd)[i := (items prd ! i)\<lparr>status := f (status (items prd ! i))\<rparr>]\<rparr>"

text \<open>
  \<^verbatim>\<open>item.verify or prd.global_config.verify\<close>: the item's own list unless it is
  \<^verbatim>\<open>None\<close> or empty.
\<close>

definition effective_verify :: "WorkItem \<Rightarrow> PRD \<Rightarrow> string list" where
  "effective_verify item prd =
     (case verify item of
        None \<Rightarrow> global_verify (global_config prd)
      | Some cmds \<Rightarrow> if cmds = [] then global_verify (global_config prd) else cmds)"

text \<open>
  The statements that both failure branches of \<^verbatim>\<open>run_loop\<close> apply to the status
  (lines 355 to 362 and 412 to 419): record the error, then block the item when its
  attempts have reached the threshold and put it back to todo otherwise.
\<close>

definition fail_status :: "string \<Rightarrow> ItemStatus \<Rightarrow> ItemStatus" where
  "fail_status err s =
     (let s1 = s\<lparr>last_error := Some err\<rparr>
      in if attempts s1 \<ge> BLOCKED_THRESHOLD then s1\<lparr>state := BLOCKED\<rparr> else s1\<lparr>state := TODO\<rparr>)"

text \<open>
  What one pass through the body of the \<^verbatim>\<open>while\<close> loop ends with: a \<^verbatim>\<open>return\<close>
  of an exit code, an exception of \<^verbatim>\<open>load_prd\<close> (which nothing in the loop catches),
  or the next pass, with the value of \<^verbatim>\<open>failures\<close> it starts from.
\<close>

datatype step = Return int | Raise load_error | Continue int

text \<open>Lines 325 to 342: log a resume, or mark the item doing, count the attempt and save.\<close>

definition start_item :: "'x env \<Rightarrow> nat \<Rightarrow> bool \<Rightarrow> PRD \<Rightarrow> 'x world \<Rightarrow> PRD \<times> 'x world" where
  "start_item e i is_resuming prd w =
     (if is_resuming then
        (prd,
         append_progress e
           (''Resuming item '' @ item_id (items prd ! i) @ '' (attempt ''
              @ str_int (attempts (status (items prd ! i))) @ ''): '' @ title (items prd ! i)) w)
      else
        (let prd1 = update_status i (\<lambda>s. s\<lparr>state := DOING, attempts := attempts s + 1\<rparr>) prd;
             w1 = save_prd prd1 w
         in (prd1,
             append_progress e
               (''Starting item '' @ item_id (items prd1 ! i) @ '' (attempt ''
                  @ str_int (attempts (status (items prd1 ! i))) @ ''): ''
                  @ title (items prd1 ! i)) w1)))"

text \<open>Lines 350 to 368: the agent failed.\<close>

definition agent_failed ::
  "'x env \<Rightarrow> nat \<Rightarrow> string \<Rightarrow> PRD \<Rightarrow> int \<Rightarrow> 'x world \<Rightarrow> step \<times> 'x world" where
  "agent_failed e i agent_error prd failures w =
     (let prd1 = update_status i (fail_status (''Agent error: '' @ take 500 agent_error)) prd;
          w1 = save_prd prd1 w;
          w2 = append_progress e
                 (''Item '' @ item_id (items prd1 ! i) @ '' failed (agent error): ''
                    @ take 200 agent_error) w1
      in (Continue (failures + 1), w2))"

text \<open>Lines 385 to 390: mark the item done, stamp it, clear the error, save and log.\<close>

definition mark_done :: "'x env \<Rightarrow> nat \<Rightarrow> PRD \<Rightarrow> 'x world \<Rightarrow> PRD \<times> 'x world" where
  "mark_done e i prd w =
     (case now e (ext w) of
        (t, x) \<Rightarrow>
          (let prd1 = update_status i
                        (\<lambda>s. s\<lparr>state := DONE, done_at := Some t, last_error := None\<rparr>) prd;
               w1 = save_prd prd1 (w\<lparr>ext := x\<rparr>);
               w2 = append_progress e
                      (''Item '' @ item_id (items prd1 ! i) @ '' completed successfully'') w1
           in (prd1, w2)))"

text \<open>
  Lines 381 to 401: verification passed. The result of \<^verbatim>\<open>git_commit\<close> only chooses
  between two console messages.
\<close>

definition verify_passed ::
  "'x env \<Rightarrow> bool \<Rightarrow> nat \<Rightarrow> PRD \<Rightarrow> int \<Rightarrow> 'x world \<Rightarrow> step \<times> 'x world" where
  "verify_passed e no_commit i prd failures w =
     (case mark_done e i prd w of
        (prd1, w1) \<Rightarrow>
          if \<not> no_commit then
            (case git_commit e
                    (''ralph: Complete '' @ item_id (items prd1 ! i) @ '' - ''
                       @ title (items prd1 ! i)) w1 of
               (committed, w2) \<Rightarrow> (Continue failures, w2))
          else (Continue failures, w1))"

text \<open>Lines 407 to 410: the summary of at most three failed commands.\<close>

definition error_summary :: "verify_result list \<Rightarrow> string" where
  "error_summary verify_results =
     join ''; ''
       (map (\<lambda>r. command r @ '': '' @ take 100 (stderr r))
          (take 3 (filter (\<lambda>r. \<not> passed r) verify_results)))"

text \<open>Lines 402 to 424: verification failed.\<close>

definition verify_failed ::
  "'x env \<Rightarrow> nat \<Rightarrow> verify_result list \<Rightarrow> PRD \<Rightarrow> int \<Rightarrow> 'x world \<Rightarrow> step \<times> 'x world" where
  "verify_failed e i verify_results prd failures w =
     (let prd1 = update_status i
                   (fail_status (''Verification failed: '' @ take 500 (error_summary verify_results)))
                   prd;
          w1 = save_prd prd1 w;
          w2 = append_progress e
                 (''Item '' @ item_id (items prd1 ! i) @ '' failed verification: ''
                    @ take 200 (error_summary verify_results)) w1
      in (Continue (failures + 1), w2))"

text \<open>
  Lines 306 to 424: the part of the loop body that works on the selected item, at
  position \<open>i\<close> of the document.
\<close>

definition process_item ::
  "'x env \<Rightarrow> string \<Rightarrow> bool \<Rightarrow> int \<Rightarrow> nat \<Rightarrow> bool \<Rightarrow> PRD \<Rightarrow> 'x world \<Rightarrow> step \<times> 'x world" where
  "process_item e model no_commit failures i is_resuming prd w =
     (case start_item e i is_resuming prd w of
        (prd1, w1) \<Rightarrow>
          (case run_agent e (build_agent_prompt e (items prd1 ! i) prd1) model w1 of
             ((agent_success, agent_error), w2) \<Rightarrow>
               if \<not> agent_success then agent_failed e i agent_error prd1 failures w2
               else
                 (case (if effective_verify (items prd1 ! i) prd1 = [] then ((True, []), w2)
                        else run_verification e (effective_verify (items prd1 ! i) prd1) w2) of
                    ((passed_all, verify_results), w3) \<Rightarrow>
                      if passed_all then verify_passed e no_commit i prd1 failures w3
                      else verify_failed e i verify_results prd1 failures w3)))"

text \<open>Lines 286 to 424: one pass through the body of the \<^verbatim>\<open>while\<close> loop.\<close>

definition iteration ::
  "'x env \<Rightarrow> string \<Rightarrow> bool \<Rightarrow> int \<Rightarrow> 'x world \<Rightarrow> step \<times> 'x world" where
  "iteration e model no_commit failures w =
     (case load_prd w of
        Inl err \<Rightarrow> (Raise err, w)
      | Inr prd \<Rightarrow>
          if all_done prd then (Return 0, append_progress e ''=== All items complete ==='' w)
          else
            (case get_next_item prd of
               (None, is_resuming) \<Rightarrow>
                 (Return (if count_by_state prd BLOCKED = 0 then 0 else 1),
                  append_progress e ''=== No more items to process ==='' w)
             | (Some i, is_resuming) \<Rightarrow>
                 process_item e model no_commit failures i is_resuming prd w))"

text \<open>Lines 426 to 443: the loop ended because a limit was reached.\<close>

definition after_loop ::
  "'x env \<Rightarrow> int \<Rightarrow> int \<Rightarrow> int \<Rightarrow> int \<Rightarrow> 'x world \<Rightarrow> int \<times> 'x world" where
  "after_loop e max_iterations max_failures iteration_count failures w =
     (if failures \<ge> max_failures then
        (1, append_progress e
              (''=== Stopped: Max failures ('' @ str_int max_failures @ '') reached ==='') w)
      else if iteration_count \<ge> max_iterations then
        (1, append_progress e
              (''=== Stopped: Max iterations ('' @ str_int max_iterations @ '') reached ==='') w)
      else (0, w))"

text \<open>
  Lines 285 to 443: the \<^verbatim>\<open>while\<close> loop and what follows it. The result is the exit
  code \<^verbatim>\<open>run_loop\<close> returns, or the exception that leaves it.
\<close>

function loop ::
  "'x env \<Rightarrow> string \<Rightarrow> int \<Rightarrow> int \<Rightarrow> bool \<Rightarrow> int \<Rightarrow> int \<Rightarrow> 'x world
     \<Rightarrow> (load_error + int) \<times> 'x world" where
  "loop e model max_iterations max_failures no_commit iteration_count failures w =
     (if iteration_count < max_iterations \<and> failures < max_failures then
        (case iteration e model no_commit failures w of
           (Return code, w1) \<Rightarrow> (Inr code, w1)
         | (Raise err, w1) \<Rightarrow> (Inl err, w1)
         | (Continue failures1, w1) \<Rightarrow>
             loop e model max_iterations max_failures no_commit (iteration_count + 1) failures1 w1)
      else
        (case after_loop e max_iterations max_failures iteration_count failures w of
           (code, w1) \<Rightarrow> (Inr code, w1)))"
  by pat_completeness auto
termination
  by (relation "measure (\<lambda>(e, model, max_iterations, max_failures, no_commit, iteration_count,
        failures, w). nat (max_iterations - iteration_count))") auto

declare loop.simps [simp del]

text \<open>
  \<^verbatim>\<open>run_loop\<close>: the startup checks (each failing with exit code 1), the start line in the
  progress log, then the loop. Console output is not modelled.
\<close>

definition run_loop ::
  "'x env \<Rightarrow> string \<Rightarrow> int \<Rightarrow> int \<Rightarrow> bool \<Rightarrow> 'x world \<Rightarrow> (load_error + int) \<times> 'x world" where
  "run_loop e model max_iterations max_failures no_commit w =
     (case is_git_repo e w of
        (is_repo, w1) \<Rightarrow>
          if \<not> is_repo then (Inr 1, w1)
          else
            (case load_prd w1 of
               Inl err \<Rightarrow> (Inr 1, w1)
             | Inr prd \<Rightarrow>
                 loop e model max_iterations max_failures no_commit 0 0
                   (append_progress e
                      (''=== Harness started (max_iterations='' @ str_int max_iterations
                         @ '', max_failures='' @ str_int max_failures @ '') ==='') w1)))"

section \<open>Properties of documents and runs\<close>

text \<open>The documents written by \<^verbatim>\<open>save_prd\<close> in a trace, oldest first.\<close>

fun saved :: "effect list \<Rightarrow> PRD list" where
  "saved [] = []"
| "saved (SavePrd prd # es) = prd # saved es"
| "saved (AppendProgress t msg # es) = saved es"
| "saved (RunAgent argv # es) = saved es"
| "saved (RunShell cmd # es) = saved es"
| "saved (RunGit args # es) = saved es"

text \<open>The documents written between the world \<open>w\<close> and a later world \<open>w'\<close>.\<close>

definition saves_since :: "'x world \<Rightarrow> 'x world \<Rightarrow> PRD list" where
  "saves_since w w' = saved (drop (length (trace w)) (trace w'))"

text \<open>
  Between \<open>w\<close> and \<open>w'\<close> nothing was written to \<^verbatim>\<open>prd.json\<close>: the file is the same
  and the trace has grown by effects other than \<^verbatim>\<open>save_prd\<close>.
\<close>

definition quiet :: "'x world \<Rightarrow> 'x world \<Rightarrow> bool" where
  "quiet w w' \<longleftrightarrow> disk w' = disk w \<and> (\<exists>es. trace w' = trace w @ es \<and> saved es = [])"

text \<open>
  A property \<open>Q\<close> of documents holds of the file and of every document written since the
  trace was \<open>t0\<close>.
\<close>

definition tracks :: "(PRD \<Rightarrow> bool) \<Rightarrow> effect list \<Rightarrow> 'x world \<Rightarrow> bool" where
  "tracks Q t0 w \<longleftrightarrow>
     (case disk w of Inl err \<Rightarrow> True | Inr prd \<Rightarrow> Q prd)
     \<and> (\<exists>es. trace w = t0 @ es \<and> list_all Q (saved es))"

text \<open>The two invariants of the data model.\<close>

definition at_most_one_doing :: "PRD \<Rightarrow> bool" where
  "at_most_one_doing prd \<longleftrightarrow>
     length (filter (\<lambda>item. state (status item) = DOING) (items prd)) \<le> 1"

definition done_at_iff_done :: "ItemStatus \<Rightarrow> bool" where
  "done_at_iff_done s \<longleftrightarrow> (done_at s \<noteq> None) = (state s = DONE)"

text \<open>The item at position \<open>j\<close> of a document exists and satisfies the second invariant.\<close>

definition item_ok :: "nat \<Rightarrow> PRD \<Rightarrow> bool" where
  "item_ok j prd \<longleftrightarrow> j < length (items prd) \<and> done_at_iff_done (status (items prd ! j))"

text \<open>
  A status update that ends the work on an item: the item is not left doing, and either
  it becomes done with a timestamp, or it does not become done and keeps the timestamp
  field it had.
\<close>

definition finishes :: "(ItemStatus \<Rightarrow> ItemStatus) \<Rightarrow> bool" where
  "finishes g \<longleftrightarrow>
     (\<forall>s. state (g s) \<noteq> DOING
        \<and> (state (g s) = DONE \<and> done_at (g s) \<noteq> None
           \<or> state (g s) \<noteq> DONE \<and> done_at (g s) = done_at s))"

section \<open>Concrete inputs\<close>

text \<open>
  Inputs on which the theorems below are evaluated: an item with a given status, a
  document of given items and global verification commands, a world holding that
  document, and collaborators whose external state is a counter that serves as the
  clock. The agent exits with the code \<open>agent_rc\<close>; \<^verbatim>\<open>git add -A\<close> exits with
  \<open>add_rc\<close> and every other \<^verbatim>\<open>git\<close> command with 0; the shell command
  \<^verbatim>\<open>false\<close> exits with 1, \<^verbatim>\<open>boom\<close> cannot be started, every other command exits
  with 0.
\<close>

definition ex_item ::
  "string \<Rightarrow> ItemState \<Rightarrow> int \<Rightarrow> string option \<Rightarrow> datetime option \<Rightarrow> WorkItem" where
  "ex_item i st n err d =
     \<lparr>item_id = i, title = ''task'', description = ''text'', acceptance_criteria = [],
      files_hint = [], verify = None,
      status = \<lparr>state = st, attempts = n, last_error = err, done_at = d\<rparr>\<rparr>"

definition ex_prd :: "string list \<Rightarrow> WorkItem list \<Rightarrow> PRD" where
  "ex_prd cmds its =
     \<lparr>version = 1,
      project = \<lparr>name = ''demo'', language = ''unknown'', default_branch = ''main''\<rparr>,
      global_config = \<lparr>global_verify = cmds\<rparr>, items = its\<rparr>"

definition ex_world :: "PRD \<Rightarrow> nat world" where
  "ex_world prd = \<lparr>disk = Inr prd, trace = [], ext = 0\<rparr>"

definition ex_env :: "int \<Rightarrow> int \<Rightarrow> nat env" where
  "ex_env agent_rc add_rc =
     \<lparr>git = (\<lambda>args x. (if args = [''git'', ''add'', ''-A''] then add_rc else 0, x)),
      shell = (\<lambda>cmd x.
        (if cmd = ''boom'' then Raised ''not found''
         else if cmd = ''false'' then Returned (1, [], ''failed'')
         else Returned (0, ''ok'', []), x)),
      opencode = (\<lambda>argv x. (Returned agent_rc, x)),
      now = (\<lambda>x. (x, Suc x)),
      build_agent_prompt = (\<lambda>item prd. title item)\<rparr>"

section \<open>The selector\<close>

lemma first_index_None: "first_index P xs = None \<longleftrightarrow> (\<forall>x \<in> set xs. \<not> P x)"
  by (induction xs) auto

lemma first_index_Some:
  "first_index P xs = Some i \<longleftrightarrow> i < length xs \<and> P (xs ! i) \<and> (\<forall>j < i. \<not> P (xs ! j))"
proof (induction xs arbitrary: i)
  case Nil
  then show ?case by simp
next
  case (Cons x xs)
  show ?case
  proof (cases "P x")
    case True
    then show ?thesis by (cases i) auto
  next
    case False
    show ?thesis
    proof (cases i)
      case 0
      with False show ?thesis by simp
    next
      case (Suc k)
      have "(\<forall>j < Suc k. \<not> P ((x # xs) ! j)) \<longleftrightarrow> (\<forall>j < k. \<not> P (xs ! j))"
        using False by (auto simp: less_Suc_eq_0_disj)
      with False Suc Cons.IH [of k] show ?thesis by auto
    qed
  qed
qed

text \<open>
  Claim C3. For every document, \<^verbatim>\<open>get_next_item\<close> returns the first item in document
  order whose state is doing, with \<^verbatim>\<open>is_resuming\<close> true, when there is one; otherwise
  the first item in document order whose state is todo, with \<^verbatim>\<open>is_resuming\<close> false;
  and when no item is doing or todo it returns no item.
\<close>

theorem get_next_item_selects:
  "((\<exists>x \<in> set (items prd). state (status x) = DOING) \<longrightarrow>
      (\<exists>i. get_next_item prd = (Some i, True) \<and> i < length (items prd)
         \<and> state (status (items prd ! i)) = DOING
         \<and> (\<forall>j < i. state (status (items prd ! j)) \<noteq> DOING)))
   \<and> ((\<forall>x \<in> set (items prd). state (status x) \<noteq> DOING)
        \<and> (\<exists>x \<in> set (items prd). state (status x) = TODO) \<longrightarrow>
      (\<exists>i. get_next_item prd = (Some i, False) \<and> i < length (items prd)
         \<and> state (status (items prd ! i)) = TODO
         \<and> (\<forall>j < i. state (status (items prd ! j)) \<noteq> TODO)))
   \<and> ((\<forall>x \<in> set (items prd). state (status x) \<noteq> DOING \<and> state (status x) \<noteq> TODO) \<longrightarrow>
      get_next_item prd = (None, False))"
proof (intro conjI impI)
  assume "\<exists>x \<in> set (items prd). state (status x) = DOING"
  then have "first_index (\<lambda>item. state (status item) = DOING) (items prd) \<noteq> None"
    by (simp add: first_index_None)
  then obtain i where i: "first_index (\<lambda>item. state (status item) = DOING) (items prd) = Some i"
    by blast
  then have "get_next_item prd = (Some i, True)"
    by (simp add: get_next_item_def)
  with i show "\<exists>i. get_next_item prd = (Some i, True) \<and> i < length (items prd)
         \<and> state (status (items prd ! i)) = DOING
         \<and> (\<forall>j < i. state (status (items prd ! j)) \<noteq> DOING)"
    by (auto simp: first_index_Some)
next
  assume a: "(\<forall>x \<in> set (items prd). state (status x) \<noteq> DOING)
        \<and> (\<exists>x \<in> set (items prd). state (status x) = TODO)"
  then have d: "first_index (\<lambda>item. state (status item) = DOING) (items prd) = None"
    by (simp add: first_index_None)
  from a have "first_index (\<lambda>item. state (status item) = TODO) (items prd) \<noteq> None"
    by (simp add: first_index_None)
  then obtain i where i: "first_index (\<lambda>item. state (status item) = TODO) (items prd) = Some i"
    by blast
  with d have "get_next_item prd = (Some i, False)"
    by (simp add: get_next_item_def)
  with i show "\<exists>i. get_next_item prd = (Some i, False) \<and> i < length (items prd)
         \<and> state (status (items prd ! i)) = TODO
         \<and> (\<forall>j < i. state (status (items prd ! j)) \<noteq> TODO)"
    by (auto simp: first_index_Some)
next
  assume a: "\<forall>x \<in> set (items prd). state (status x) \<noteq> DOING \<and> state (status x) \<noteq> TODO"
  then have "first_index (\<lambda>item. state (status item) = DOING) (items prd) = None"
    and "first_index (\<lambda>item. state (status item) = TODO) (items prd) = None"
    by (simp_all add: first_index_None)
  then show "get_next_item prd = (None, False)"
    by (simp add: get_next_item_def)
qed

theorem get_next_item_selects_witness:
  "get_next_item (ex_prd [] [ex_item ''a'' DONE 1 None (Some 4), ex_item ''b'' TODO 0 None None,
      ex_item ''c'' DOING 1 None None, ex_item ''d'' DOING 2 None None]) = (Some 2, True)
   \<and> get_next_item (ex_prd [] [ex_item ''a'' BLOCKED 3 None None, ex_item ''b'' TODO 0 None None,
      ex_item ''c'' TODO 1 None None]) = (Some 1, False)
   \<and> get_next_item (ex_prd [] [ex_item ''a'' BLOCKED 3 None None, ex_item ''b'' DONE 1 None (Some 2)])
      = (None, False)"
  using get_next_item_selects [of "ex_prd [] [ex_item ''a'' DONE 1 None (Some 4), ex_item ''b'' TODO 0 None None,
      ex_item ''c'' DOING 1 None None, ex_item ''d'' DOING 2 None None]"]
    get_next_item_selects [of "ex_prd [] [ex_item ''a'' BLOCKED 3 None None, ex_item ''b'' TODO 0 None None,
      ex_item ''c'' TODO 1 None None]"]
    get_next_item_selects [of "ex_prd [] [ex_item ''a'' BLOCKED 3 None None, ex_item ''b'' DONE 1 None (Some 2)]"]
  by (simp add: ex_prd_def ex_item_def get_next_item_def)

section \<open>The verification runner\<close>








section \<open>One pass of the loop\<close>

lemma get_next_item_Some:
  assumes "get_next_item prd = (Some i, r)"
  shows "i < length (items prd)"
    and "r \<Longrightarrow> state (status (items prd ! i)) = DOING"
    and "\<not> r \<Longrightarrow> state (status (items prd ! i)) = TODO"
    and "\<not> r \<Longrightarrow> \<forall>x \<in> set (items prd). state (status x) \<noteq> DOING"
  using assms
  by (auto simp: get_next_item_def first_index_Some first_index_None split: option.splits)

lemma items_update_status:
  "items (update_status i f prd) = (items prd)[i := (items prd ! i)\<lparr>status := f (status (items prd ! i))\<rparr>]"
  by (simp add: update_status_def)

lemma nth_update_status:
  "i < length (items prd) \<Longrightarrow> status (items (update_status i f prd) ! i) = f (status (items prd ! i))"
  by (simp add: update_status_def)

lemma nth_update_status_other:
  "j \<noteq> i \<Longrightarrow> items (update_status i f prd) ! j = items prd ! j"
  by (simp add: update_status_def)

lemma length_update_status: "length (items (update_status i f prd)) = length (items prd)"
  by (simp add: update_status_def)

lemma disk_append_progress: "disk (append_progress e msg w) = disk w"
  by (simp add: append_progress_def split: prod.splits)

lemma start_item_prd:
  "fst (start_item e i r prd w) =
     (if r then prd else update_status i (\<lambda>s. s\<lparr>state := DOING, attempts := attempts s + 1\<rparr>) prd)"
  by (simp add: start_item_def Let_def)

lemma agent_failed_result:
  "fst (agent_failed e i err prd f w) = Continue (f + 1)"
  "disk (snd (agent_failed e i err prd f w))
     = Inr (update_status i (fail_status (''Agent error: '' @ take 500 err)) prd)"
  by (simp_all add: agent_failed_def Let_def disk_append_progress save_prd_def)

lemma verify_failed_result:
  "fst (verify_failed e i rs prd f w) = Continue (f + 1)"
  "disk (snd (verify_failed e i rs prd f w))
     = Inr (update_status i
         (fail_status (''Verification failed: '' @ take 500 (error_summary rs))) prd)"
  by (simp_all add: verify_failed_def Let_def disk_append_progress save_prd_def)



lemma iteration_selected:
  assumes "load_prd w = Inr prd" "get_next_item prd = (Some i, r)"
  shows "iteration e model nc f w = process_item e model nc f i r prd w"
proof -
  from get_next_item_Some [OF assms(2)]
  have "i < length (items prd)" "state (status (items prd ! i)) = DOING \<or> state (status (items prd ! i)) = TODO"
    by auto
  then have "\<not> all_done prd"
    by (auto simp: all_done_def list_all_length)
  with assms show ?thesis
    by (simp add: iteration_def)
qed



section \<open>Traces\<close>

lemma saved_append: "saved (xs @ ys) = saved xs @ saved ys"
  by (induction xs rule: saved.induct) auto

lemma quiet_refl: "quiet w w"
  by (simp add: quiet_def)

lemma quiet_trans: "quiet w w1 \<Longrightarrow> quiet w1 w2 \<Longrightarrow> quiet w w2"
  by (auto simp: quiet_def saved_append)

lemma quiet_ext: "quiet w (w\<lparr>ext := x\<rparr>)"
  by (simp add: quiet_def)

lemma quiet_append_progress: "quiet w (append_progress e msg w)"
  by (simp add: quiet_def append_progress_def split: prod.splits)

lemma quiet_run_git: "quiet w (snd (run_git e args w))"
  by (simp add: quiet_def run_git_def split: prod.splits)

lemma quiet_run_shell: "quiet w (snd (run_shell e cmd w))"
  by (simp add: quiet_def run_shell_def split: prod.splits)

lemma quiet_run_opencode: "quiet w (snd (run_opencode e argv w))"
  by (simp add: quiet_def run_opencode_def split: prod.splits)

lemma quiet_is_git_repo: "quiet w (snd (is_git_repo e w))"
  using quiet_run_git [of w e "[''git'', ''rev-parse'', ''--git-dir'']"]
  by (auto simp: is_git_repo_def split: prod.splits)

lemma quiet_git_commit: "quiet w (snd (git_commit e message w))"
proof -
  obtain rc1 w1 where 1: "run_git e [''git'', ''add'', ''-A''] w = (rc1, w1)"
    by (cases "run_git e [''git'', ''add'', ''-A''] w")
  obtain rc2 w2 where 2: "run_git e [''git'', ''diff'', ''--cached'', ''--quiet''] w1 = (rc2, w2)"
    by (cases "run_git e [''git'', ''diff'', ''--cached'', ''--quiet''] w1")
  obtain rc3 w3 where 3: "run_git e [''git'', ''commit'', ''-m'', message] w2 = (rc3, w3)"
    by (cases "run_git e [''git'', ''commit'', ''-m'', message] w2")
  have q1: "quiet w w1"
    using quiet_run_git [of w e "[''git'', ''add'', ''-A'']"] 1 by simp
  have q2: "quiet w1 w2"
    using quiet_run_git [of w1 e "[''git'', ''diff'', ''--cached'', ''--quiet'']"] 2 by simp
  have q3: "quiet w2 w3"
    using quiet_run_git [of w2 e "[''git'', ''commit'', ''-m'', message]"] 3 by simp
  from q1 q2 q3 have "quiet w w2" "quiet w w3"
    by (blast intro: quiet_trans)+
  with q1 show ?thesis
    by (simp add: git_commit_def 1 2 3)
qed

lemma quiet_run_command: "quiet w (snd (run_command e cmd w))"
  using quiet_run_shell [of w e cmd]
  by (auto simp: run_command_def split: prod.splits)

lemma quiet_verification_loop: "quiet w (snd (verification_loop e cmds ap rs w))"
proof (induction cmds arbitrary: ap rs w)
  case Nil
  show ?case by (simp add: quiet_refl)
next
  case (Cons cmd cmds)
  obtain r w1 where rc: "run_command e cmd w = (r, w1)"
    by (cases "run_command e cmd w")
  with quiet_run_command [of w e cmd] have "quiet w w1"
    by simp
  with Cons.IH [of w1] rc show ?case
    by (auto intro: quiet_trans)
qed

lemma quiet_run_verification: "quiet w (snd (run_verification e cmds w))"
  by (simp add: run_verification_def quiet_verification_loop)

lemma run_agent_world:
  "snd (run_agent e prompt model w)
     = snd (run_opencode e [''opencode'', ''-m'', model, ''run'', prompt] w)"
  by (simp add: run_agent_def split: prod.splits attempt.splits)

lemma run_agent_trace:
  "trace (snd (run_agent e prompt model w))
     = trace w @ [RunAgent [''opencode'', ''-m'', model, ''run'', prompt]]"
  "disk (snd (run_agent e prompt model w)) = disk w"
  by (simp_all add: run_agent_world run_opencode_def split: prod.splits)

lemma quiet_run_agent: "quiet w (snd (run_agent e prompt model w))"
  by (simp add: run_agent_world quiet_run_opencode)

lemma quiet_grows: "quiet w w' \<Longrightarrow> \<exists>es. trace w' = trace w @ es"
  by (auto simp: quiet_def)

lemma trace_append_progress:
  "trace (append_progress e msg w) = trace w @ [AppendProgress (fst (now e (ext w))) msg]"
  by (simp add: append_progress_def split: prod.splits)

lemma start_item_resume:
  "start_item e i True prd w = (prd1, w1) \<Longrightarrow>
     prd1 = prd \<and> disk w1 = disk w \<and> (\<exists>t msg. trace w1 = trace w @ [AppendProgress t msg])"
  by (auto simp: start_item_def disk_append_progress trace_append_progress)

lemma start_item_fresh:
  "start_item e i False prd w = (prd1, w1) \<Longrightarrow>
     prd1 = update_status i (\<lambda>s. s\<lparr>state := DOING, attempts := attempts s + 1\<rparr>) prd
     \<and> disk w1 = Inr prd1
     \<and> (\<exists>t msg. trace w1 = trace w @ [SavePrd prd1, AppendProgress t msg])"
  by (auto simp: start_item_def Let_def disk_append_progress trace_append_progress save_prd_def)

lemma agent_failed_grows: "\<exists>es. trace (snd (agent_failed e i err prd f w)) = trace w @ es"
  by (simp add: agent_failed_def Let_def save_prd_def trace_append_progress)

lemma verify_failed_grows: "\<exists>es. trace (snd (verify_failed e i rs prd f w)) = trace w @ es"
  by (simp add: verify_failed_def Let_def save_prd_def trace_append_progress)

lemma mark_done_result:
  "mark_done e i prd w = (prd1, w1) \<Longrightarrow>
     (\<exists>t. prd1 = update_status i (\<lambda>s. s\<lparr>state := DONE, done_at := Some t, last_error := None\<rparr>) prd)
     \<and> disk w1 = Inr prd1
     \<and> (\<exists>t msg. trace w1 = trace w @ [SavePrd prd1, AppendProgress t msg])"
proof -
  assume a: "mark_done e i prd w = (prd1, w1)"
  obtain t x where n: "now e (ext w) = (t, x)"
    by (cases "now e (ext w)")
  from a n have p: "prd1 = update_status i (\<lambda>s. s\<lparr>state := DONE, done_at := Some t, last_error := None\<rparr>) prd"
    by (simp add: mark_done_def Let_def)
  from a n p have w1: "w1 = append_progress e
      (''Item '' @ item_id (items prd1 ! i) @ '' completed successfully'')
      (save_prd prd1 (w\<lparr>ext := x\<rparr>))"
    by (simp add: mark_done_def Let_def)
  show ?thesis
    using p by (auto simp: w1 disk_append_progress trace_append_progress save_prd_def)
qed

lemma verify_passed_result:
  assumes "mark_done e i prd w = (prd1, w1)"
  shows "disk (snd (verify_passed e nc i prd f w)) = Inr prd1"
    and "\<exists>es. trace (snd (verify_passed e nc i prd f w)) = trace w1 @ es \<and> saved es = []"
proof -
  let ?msg = "''ralph: Complete '' @ item_id (items prd1 ! i) @ '' - '' @ title (items prd1 ! i)"
  have d1: "disk w1 = Inr prd1"
    using mark_done_result [OF assms] by simp
  have q: "quiet w1 (snd (verify_passed e nc i prd f w))"
    using quiet_git_commit [of w1 e ?msg]
    by (auto simp: verify_passed_def assms quiet_refl split: prod.splits)
  from q d1 show "disk (snd (verify_passed e nc i prd f w)) = Inr prd1"
    by (simp add: quiet_def)
  from q show "\<exists>es. trace (snd (verify_passed e nc i prd f w)) = trace w1 @ es \<and> saved es = []"
    by (simp add: quiet_def)
qed

section \<open>Working on the selected item\<close>

lemma process_item_unfold:
  assumes st: "start_item e i r prd w = (prd1, w1)"
  shows "\<exists>g es. disk (snd (process_item e model nc f i r prd w)) = Inr (update_status i g prd1)
      \<and> (\<forall>s. attempts (g s) = attempts s) \<and> finishes g
      \<and> trace (snd (process_item e model nc f i r prd w))
          = trace w1 @ RunAgent [''opencode'', ''-m'', model, ''run'',
                build_agent_prompt e (items prd1 ! i) prd1] # es
      \<and> list_all (\<lambda>p. p = update_status i g prd1) (saved es)"
proof -
  let ?prompt = "build_agent_prompt e (items prd1 ! i) prd1"
  let ?argv = "[''opencode'', ''-m'', model, ''run'', ?prompt]"
  obtain ok err w2 where ag: "run_agent e ?prompt model w1 = ((ok, err), w2)"
    by (cases "run_agent e ?prompt model w1") auto
  have t2: "trace w2 = trace w1 @ [RunAgent ?argv]"
    using run_agent_trace(1) [of e ?prompt model w1] ag by simp
  show ?thesis
  proof (cases ok)
    case False
    let ?g = "fail_status (''Agent error: '' @ take 500 err)"
    have pi: "process_item e model nc f i r prd w = agent_failed e i err prd1 f w2"
      using st ag False by (simp add: process_item_def)
    have "trace (snd (agent_failed e i err prd1 f w2))
        = trace w2 @ [SavePrd (update_status i ?g prd1),
            AppendProgress (fst (now e (ext w2)))
              (''Item '' @ item_id (items (update_status i ?g prd1) ! i)
                 @ '' failed (agent error): '' @ take 200 err)]"
      by (simp add: agent_failed_def Let_def save_prd_def trace_append_progress)
    moreover have "finishes ?g" "\<forall>s. attempts (?g s) = attempts s"
      by (simp_all add: finishes_def fail_status_def Let_def)
    ultimately show ?thesis
      unfolding pi t2 using agent_failed_result(2) [of e i err prd1 f w2]
      by (intro exI [of _ ?g]) simp
  next
    case True
    let ?cmds = "effective_verify (items prd1 ! i) prd1"
    obtain pa rs w3 where ve: "(if ?cmds = [] then ((True, []), w2)
                        else run_verification e ?cmds w2) = ((pa, rs), w3)"
      by (metis prod.exhaust)
    have "quiet w2 w3"
      using ve quiet_run_verification [of w2 e ?cmds]
      by (auto simp: quiet_refl split: if_splits)
    then obtain es3 where t3: "trace w3 = trace w2 @ es3" "saved es3 = []" and d3: "disk w3 = disk w2"
      by (auto simp: quiet_def)
    show ?thesis
    proof (cases pa)
      case False
      let ?g = "fail_status (''Verification failed: '' @ take 500 (error_summary rs))"
      have pi: "process_item e model nc f i r prd w = verify_failed e i rs prd1 f w3"
        using st ag ve \<open>ok\<close> False by (simp add: process_item_def)
      have "trace (snd (verify_failed e i rs prd1 f w3))
        = trace w3 @ [SavePrd (update_status i ?g prd1),
            AppendProgress (fst (now e (ext w3)))
              (''Item '' @ item_id (items (update_status i ?g prd1) ! i)
                 @ '' failed verification: '' @ take 200 (error_summary rs))]"
        by (simp add: verify_failed_def Let_def save_prd_def trace_append_progress)
      moreover have "finishes ?g" "\<forall>s. attempts (?g s) = attempts s"
        by (simp_all add: finishes_def fail_status_def Let_def)
      ultimately show ?thesis
        unfolding pi using verify_failed_result(2) [of e i rs prd1 f w3] t2 t3
        by (intro exI [of _ ?g]) (simp add: saved_append)
    next
      case True
      obtain prd2 w4 where md: "mark_done e i prd1 w3 = (prd2, w4)"
        by (cases "mark_done e i prd1 w3")
      have pi: "process_item e model nc f i r prd w = verify_passed e nc i prd1 f w3"
        using st ag ve \<open>ok\<close> True by (simp add: process_item_def)
      from mark_done_result [OF md] obtain t t' msg
        where p2: "prd2 = update_status i (\<lambda>s. s\<lparr>state := DONE, done_at := Some t, last_error := None\<rparr>) prd1"
          and t4: "trace w4 = trace w3 @ [SavePrd prd2, AppendProgress t' msg]"
        by blast
      let ?g = "\<lambda>s. s\<lparr>state := DONE, done_at := Some t, last_error := None\<rparr>"
      from verify_passed_result [OF md, of nc f] obtain es5
        where d5: "disk (snd (verify_passed e nc i prd1 f w3)) = Inr prd2"
          and t5: "trace (snd (verify_passed e nc i prd1 f w3)) = trace w4 @ es5" "saved es5 = []"
        by blast
      have "finishes ?g" "\<forall>s. attempts (?g s) = attempts s"
        by (simp_all add: finishes_def)
      then show ?thesis
        unfolding pi using d5 t5 t4 t3 t2 p2
        by (intro exI [of _ ?g]) (simp add: saved_append)
    qed
  qed
qed



section \<open>A failing commit\<close>

text \<open>
  Claim C9. When verification passes and commits are enabled, a failure of the commit
  (\<^verbatim>\<open>git_commit\<close> returns false) leaves the item as it was persisted just before:
  state done, \<^verbatim>\<open>done_at\<close> set, \<^verbatim>\<open>last_error\<close> cleared; nothing is written to the
  document after that; the iteration ends with the failure counter unchanged, and the
  loop goes on to its next iteration with that counter.
\<close>

theorem commit_failure_is_harmless:
  assumes "\<not> no_commit"
    and "load_prd w = Inr prd"
    and "get_next_item prd = (Some i, is_resuming)"
    and "start_item e i is_resuming prd w = (prd1, w1)"
    and "run_agent e (build_agent_prompt e (items prd1 ! i) prd1) model w1
           = ((True, agent_error), w2)"
    and "(if effective_verify (items prd1 ! i) prd1 = [] then ((True, []), w2)
          else run_verification e (effective_verify (items prd1 ! i) prd1) w2)
           = ((True, verify_results), w3)"
    and "mark_done e i prd1 w3 = (prd2, w4)"
    and "git_commit e
           (''ralph: Complete '' @ item_id (items prd2 ! i) @ '' - '' @ title (items prd2 ! i)) w4
           = (False, w5)"
  shows "iteration e model no_commit failures w = (Continue failures, w5)
    \<and> disk w4 = Inr prd2 \<and> disk w5 = Inr prd2 \<and> saves_since w4 w5 = []
    \<and> state (status (items prd2 ! i)) = DONE
    \<and> done_at (status (items prd2 ! i)) \<noteq> None
    \<and> last_error (status (items prd2 ! i)) = None
    \<and> (iteration_count < max_iterations \<and> failures < max_failures \<longrightarrow>
         loop e model max_iterations max_failures no_commit iteration_count failures w
           = loop e model max_iterations max_failures no_commit (iteration_count + 1) failures w5)"
proof -
  have len: "i < length (items prd)"
    using get_next_item_Some(1) [OF assms(3)] .
  have "prd1 = fst (start_item e i is_resuming prd w)"
    using assms(4) by simp
  then have len1: "i < length (items prd1)"
    using len by (simp add: start_item_prd length_update_status)
  have vp: "verify_passed e no_commit i prd1 failures w3 = (Continue failures, w5)"
    using assms(1,7,8) by (simp add: verify_passed_def)
  have "process_item e model no_commit failures i is_resuming prd w = (Continue failures, w5)"
    using assms(4,5,6) vp by (simp add: process_item_def)
  then have it: "iteration e model no_commit failures w = (Continue failures, w5)"
    using assms(2,3) by (simp add: iteration_selected)
  from mark_done_result [OF assms(7)] obtain t
    where p2: "prd2 = update_status i (\<lambda>s. s\<lparr>state := DONE, done_at := Some t, last_error := None\<rparr>) prd1"
      and d4: "disk w4 = Inr prd2"
    by blast
  have q: "quiet w4 w5"
    using quiet_git_commit [of w4 e "''ralph: Complete '' @ item_id (items prd2 ! i) @ '' - '' @ title (items prd2 ! i)"] assms(8)
    by simp
  then have d5: "disk w5 = Inr prd2" and s5: "saves_since w4 w5 = []"
    using d4 by (auto simp: quiet_def saves_since_def)
  have st: "status (items prd2 ! i)
      = (status (items prd1 ! i))\<lparr>state := DONE, done_at := Some t, last_error := None\<rparr>"
    unfolding p2 using len1 by (rule nth_update_status)
  have lp: "loop e model max_iterations max_failures no_commit iteration_count failures w
           = loop e model max_iterations max_failures no_commit (iteration_count + 1) failures w5"
    if "iteration_count < max_iterations \<and> failures < max_failures"
    using that it by (subst loop.simps) simp
  from it d4 d5 s5 lp show ?thesis
    by (simp add: st)
qed

theorem commit_failure_is_harmless_witness:
  "iteration (ex_env 0 1) ''m'' False 0 (ex_world (ex_prd [] [ex_item ''a'' TODO 0 None None]))
     = (Continue 0,
        \<lparr>disk = Inr (ex_prd [] [ex_item ''a'' DONE 1 None (Some 1)]),
         trace = [SavePrd (ex_prd [] [ex_item ''a'' DOING 1 None None]),
                  AppendProgress 0 ''Starting item a (attempt 1): task'',
                  RunAgent [''opencode'', ''-m'', ''m'', ''run'', ''task''],
                  SavePrd (ex_prd [] [ex_item ''a'' DONE 1 None (Some 1)]),
                  AppendProgress 2 ''Item a completed successfully'',
                  RunGit [''git'', ''add'', ''-A'']],
         ext = 3\<rparr>)"
proof -
  let ?e = "ex_env 0 1"
  let ?p = "ex_prd [] [ex_item ''a'' TODO 0 None None]"
  let ?p1 = "ex_prd [] [ex_item ''a'' DOING 1 None None]"
  let ?p2 = "ex_prd [] [ex_item ''a'' DONE 1 None (Some 1)]"
  let ?w1 = "\<lparr>disk = Inr ?p1,
         trace = [SavePrd ?p1, AppendProgress 0 ''Starting item a (attempt 1): task''],
         ext = 1\<rparr> :: nat world"
  let ?w2 = "\<lparr>disk = Inr ?p1,
         trace = [SavePrd ?p1, AppendProgress 0 ''Starting item a (attempt 1): task'',
                  RunAgent [''opencode'', ''-m'', ''m'', ''run'', ''task'']],
         ext = 1\<rparr> :: nat world"
  let ?w4 = "\<lparr>disk = Inr ?p2,
         trace = [SavePrd ?p1, AppendProgress 0 ''Starting item a (attempt 1): task'',
                  RunAgent [''opencode'', ''-m'', ''m'', ''run'', ''task''],
                  SavePrd ?p2, AppendProgress 2 ''Item a completed successfully''],
         ext = 3\<rparr> :: nat world"
  let ?w5 = "\<lparr>disk = Inr ?p2,
         trace = [SavePrd ?p1, AppendProgress 0 ''Starting item a (attempt 1): task'',
                  RunAgent [''opencode'', ''-m'', ''m'', ''run'', ''task''],
                  SavePrd ?p2, AppendProgress 2 ''Item a completed successfully'',
                  RunGit [''git'', ''add'', ''-A'']],
         ext = 3\<rparr> :: nat world"
  have a1: "\<not> False"
    by simp
  have a2: "load_prd (ex_world ?p) = Inr ?p"
    by (simp add: load_prd_def ex_world_def)
  have a3: "get_next_item ?p = (Some 0, False)"
    by code_simp
  have a4: "start_item ?e 0 False ?p (ex_world ?p) = (?p1, ?w1)"
    by code_simp
  have a5: "run_agent ?e (build_agent_prompt ?e (items ?p1 ! 0) ?p1) ''m'' ?w1 = ((True, []), ?w2)"
    by code_simp
  have a6: "(if effective_verify (items ?p1 ! 0) ?p1 = [] then ((True, []), ?w2)
          else run_verification ?e (effective_verify (items ?p1 ! 0) ?p1) ?w2)
           = ((True, []), ?w2)"
    by code_simp
  have a7: "mark_done ?e 0 ?p1 ?w2 = (?p2, ?w4)"
    by code_simp
  have a8: "git_commit ?e
           (''ralph: Complete '' @ item_id (items ?p2 ! 0) @ '' - '' @ title (items ?p2 ! 0)) ?w4
           = (False, ?w5)"
    by code_simp
  from commit_failure_is_harmless [where failures = 0 and iteration_count = 0
      and max_iterations = 5 and max_failures = 5, OF a1 a2 a3 a4 a5 a6 a7 a8]
  show ?thesis
    by simp
qed

section \<open>Leaving the loop\<close>

lemma after_loop_limit:
  assumes "\<not> (iteration_count < max_iterations \<and> failures < max_failures)"
  shows "after_loop e max_iterations max_failures iteration_count failures w
    = (1, append_progress e
         (if failures \<ge> max_failures
          then ''=== Stopped: Max failures ('' @ str_int max_failures @ '') reached ===''
          else ''=== Stopped: Max iterations ('' @ str_int max_iterations @ '') reached ==='') w)"
  using assms by (auto simp: after_loop_def)

lemma loop_limit:
  assumes "\<not> (iteration_count < max_iterations \<and> failures < max_failures)"
  shows "loop e model max_iterations max_failures no_commit iteration_count failures w
    = (Inr 1, append_progress e
         (if failures \<ge> max_failures
          then ''=== Stopped: Max failures ('' @ str_int max_failures @ '') reached ===''
          else ''=== Stopped: Max iterations ('' @ str_int max_iterations @ '') reached ==='') w)"
proof -
  have "loop e model max_iterations max_failures no_commit iteration_count failures w
      = (case after_loop e max_iterations max_failures iteration_count failures w of
           (code, w1) \<Rightarrow> (Inr code, w1))"
    by (subst loop.simps) (simp only: assms if_False)
  then show ?thesis
    by (simp only: after_loop_limit [OF assms] prod.case)
qed

text \<open>
  Claim C5, as amended. When the loop stops because a limit is reached, \<^verbatim>\<open>run_loop\<close>
  returns exit code 1 whichever limit it was; the two causes differ only in the line
  appended to the progress log, which names the failure limit when the failure count has
  reached it and the iteration limit otherwise.
\<close>

theorem limits_share_exit_code:
  assumes "\<not> (iteration_count < max_iterations \<and> failures < max_failures)"
  shows "fst (loop e model max_iterations max_failures no_commit iteration_count failures w)
      = Inr 1
    \<and> disk (snd (loop e model max_iterations max_failures no_commit iteration_count failures w))
      = disk w
    \<and> trace (snd (loop e model max_iterations max_failures no_commit iteration_count failures w))
      = trace w @ [AppendProgress (fst (now e (ext w)))
          (if failures \<ge> max_failures
           then ''=== Stopped: Max failures ('' @ str_int max_failures @ '') reached ===''
           else ''=== Stopped: Max iterations ('' @ str_int max_iterations @ '') reached ==='')]"
  unfolding loop_limit [OF assms]
  by (simp only: fst_conv snd_conv disk_append_progress trace_append_progress simp_thms)

theorem limits_share_exit_code_witness:
  "fst (loop (ex_env 1 0) ''m'' 1 5 True 1 1 (ex_world (ex_prd [] []))) = Inr 1
   \<and> trace (snd (loop (ex_env 1 0) ''m'' 1 5 True 1 1 (ex_world (ex_prd [] []))))
       = [AppendProgress 0 ''=== Stopped: Max iterations (1) reached ==='']
   \<and> fst (loop (ex_env 1 0) ''m'' 5 1 True 1 1 (ex_world (ex_prd [] []))) = Inr 1
   \<and> trace (snd (loop (ex_env 1 0) ''m'' 5 1 True 1 1 (ex_world (ex_prd [] []))))
       = [AppendProgress 0 ''=== Stopped: Max failures (1) reached ==='']"
proof -
  have a: "\<not> ((1::int) < 1 \<and> (1::int) < 5)" and b: "\<not> ((1::int) < 5 \<and> (1::int) < 1)"
    by simp_all
  show ?thesis
    using limits_share_exit_code [OF a, of "ex_env 1 0" "''m''" True "ex_world (ex_prd [] [])"]
      limits_share_exit_code [OF b, of "ex_env 1 0" "''m''" True "ex_world (ex_prd [] [])"]
    by (simp add: ex_env_def ex_world_def str_int_def str_nat.simps)
qed

text \<open>
  Claim C5 as stated fails: a run that stops at the iteration limit with work remaining
  and a run that stops at the failure limit return the same exit code, 1. Only the last
  line of the progress log tells them apart.
\<close>

theorem limits_distinct_exit_counterexample:
  "fst (run_loop (ex_env 1 0) ''m'' 1 5 True (ex_world (ex_prd [] [ex_item ''a'' TODO 0 None None])))
     = fst (run_loop (ex_env 1 0) ''m'' 5 1 True
         (ex_world (ex_prd [] [ex_item ''a'' TODO 0 None None])))
   \<and> fst (run_loop (ex_env 1 0) ''m'' 1 5 True
         (ex_world (ex_prd [] [ex_item ''a'' TODO 0 None None]))) = Inr 1
   \<and> last (trace (snd (run_loop (ex_env 1 0) ''m'' 1 5 True
         (ex_world (ex_prd [] [ex_item ''a'' TODO 0 None None])))))
       = AppendProgress 3 ''=== Stopped: Max iterations (1) reached ===''
   \<and> last (trace (snd (run_loop (ex_env 1 0) ''m'' 5 1 True
         (ex_world (ex_prd [] [ex_item ''a'' TODO 0 None None])))))
       = AppendProgress 3 ''=== Stopped: Max failures (1) reached ===''
   \<and> disk (snd (run_loop (ex_env 1 0) ''m'' 1 5 True
         (ex_world (ex_prd [] [ex_item ''a'' TODO 0 None None]))))
       = Inr (ex_prd [] [ex_item ''a'' TODO 1 (Some ''Agent error: Exit code 1'') None])"
  by code_simp

lemma is_git_repo_world:
  "disk (snd (is_git_repo e w)) = disk w"
  "trace (snd (is_git_repo e w)) = trace w @ [RunGit [''git'', ''rev-parse'', ''--git-dir'']]"
  by (simp_all add: is_git_repo_def run_git_def split: prod.splits)

text \<open>
  Claim C10. If \<^verbatim>\<open>run_loop\<close> is called with \<^verbatim>\<open>max_iterations <= 0\<close> or
  \<^verbatim>\<open>max_failures <= 0\<close> in a git repository whose document loads, it returns exit
  code 1 whatever the document holds (also when every item is done): the document on disk
  is untouched, and all the run does is the repository check and two lines of the
  progress log, so no item is selected, no agent is run and nothing is saved.
\<close>

theorem exhausted_limits_exit_1:
  assumes "fst (is_git_repo e w)"
    and "disk w = Inr prd"
    and "max_iterations \<le> 0 \<or> max_failures \<le> 0"
  shows "fst (run_loop e model max_iterations max_failures no_commit w) = Inr 1
    \<and> disk (snd (run_loop e model max_iterations max_failures no_commit w)) = Inr prd
    \<and> (\<exists>t1 msg1 t2 msg2.
          trace (snd (run_loop e model max_iterations max_failures no_commit w))
            = trace w @ [RunGit [''git'', ''rev-parse'', ''--git-dir''],
                AppendProgress t1 msg1, AppendProgress t2 msg2])"
proof -
  obtain r w1 where g: "is_git_repo e w = (r, w1)"
    by (cases "is_git_repo e w")
  with assms(1) have r
    by simp
  have d1: "disk w1 = Inr prd"
    and t1: "trace w1 = trace w @ [RunGit [''git'', ''rev-parse'', ''--git-dir'']]"
    using is_git_repo_world [of e w] g assms(2) by simp_all
  let ?start = "''=== Harness started (max_iterations='' @ str_int max_iterations
                         @ '', max_failures='' @ str_int max_failures @ '') ===''"
  let ?w2 = "append_progress e ?start w1"
  have lim: "\<not> ((0::int) < max_iterations \<and> (0::int) < max_failures)"
    using assms(3) by auto
  have run: "run_loop e model max_iterations max_failures no_commit w
      = loop e model max_iterations max_failures no_commit 0 0 ?w2"
    using g \<open>r\<close> d1 by (simp add: run_loop_def load_prd_def)
  show ?thesis
    unfolding run loop_limit [OF lim]
    by (simp add: disk_append_progress trace_append_progress d1 t1 del: str_int_def)
qed

theorem exhausted_limits_exit_1_witness:
  "run_loop (ex_env 0 0) ''m'' 0 10 False
      (ex_world (ex_prd [] [ex_item ''a'' DONE 1 None (Some 5)]))
     = (Inr 1,
        \<lparr>disk = Inr (ex_prd [] [ex_item ''a'' DONE 1 None (Some 5)]),
         trace = [RunGit [''git'', ''rev-parse'', ''--git-dir''],
                  AppendProgress 0 ''=== Harness started (max_iterations=0, max_failures=10) ==='',
                  AppendProgress 1 ''=== Stopped: Max iterations (0) reached ===''],
         ext = 2\<rparr>)
   \<and> fst (run_loop (ex_env 0 0) ''m'' 50 0 False
      (ex_world (ex_prd [] [ex_item ''a'' DONE 1 None (Some 5)]))) = Inr 1
   \<and> fst (run_loop (ex_env 0 0) ''m'' 50 10 False
      (ex_world (ex_prd [] [ex_item ''a'' DONE 1 None (Some 5)]))) = Inr 0"
proof -
  let ?w = "ex_world (ex_prd [] [ex_item ''a'' DONE 1 None (Some 5)])"
  have a1: "fst (is_git_repo (ex_env 0 0) ?w)"
    by code_simp
  have a2: "disk ?w = Inr (ex_prd [] [ex_item ''a'' DONE 1 None (Some 5)])"
    by (simp add: ex_world_def)
  have a3: "(0::int) \<le> 0 \<or> (10::int) \<le> 0" and a4: "(50::int) \<le> 0 \<or> (0::int) \<le> 0"
    by simp_all
  have r1: "run_loop (ex_env 0 0) ''m'' 0 10 False ?w
     = (Inr 1,
        \<lparr>disk = Inr (ex_prd [] [ex_item ''a'' DONE 1 None (Some 5)]),
         trace = [RunGit [''git'', ''rev-parse'', ''--git-dir''],
                  AppendProgress 0 ''=== Harness started (max_iterations=0, max_failures=10) ==='',
                  AppendProgress 1 ''=== Stopped: Max iterations (0) reached ===''],
         ext = 2\<rparr>)"
    by code_simp
  have r3: "fst (run_loop (ex_env 0 0) ''m'' 50 10 False ?w) = Inr 0"
    by code_simp
  show ?thesis
    using exhausted_limits_exit_1 [OF a1 a2 a3, of "''m''" False]
      exhausted_limits_exit_1 [OF a1 a2 a4, of "''m''" False] r1 r3
    by blast
qed

section \<open>Nothing left to do\<close>

lemma all_done_iff:
  "all_done prd \<longleftrightarrow>
     (\<forall>x \<in> set (items prd). state (status x) \<noteq> DOING \<and> state (status x) \<noteq> TODO)"
proof -
  have "(s = DONE \<or> s = BLOCKED) \<longleftrightarrow> (s \<noteq> DOING \<and> s \<noteq> TODO)" for s
    by (cases s) auto
  then show ?thesis
    by (simp add: all_done_def list_all_iff)
qed

lemma selector_none_only_if_all_done:
  "fst (get_next_item prd) = None \<longleftrightarrow> all_done prd"
proof -
  let ?d = "first_index (\<lambda>item. state (status item) = DOING) (items prd)"
  let ?t = "first_index (\<lambda>item. state (status item) = TODO) (items prd)"
  have "fst (get_next_item prd) = None \<longleftrightarrow> ?d = None \<and> ?t = None"
    by (cases ?d; cases ?t) (simp_all add: get_next_item_def)
  also have "\<dots> \<longleftrightarrow> all_done prd"
    unfolding first_index_None all_done_iff by blast
  finally show ?thesis .
qed

lemma iteration_all_done:
  assumes "load_prd w = Inr prd"
    and "\<forall>x \<in> set (items prd). state (status x) \<noteq> DOING \<and> state (status x) \<noteq> TODO"
  shows "iteration e model no_commit failures w
    = (Return 0, append_progress e ''=== All items complete ==='' w)"
  using assms by (simp add: iteration_def all_done_iff)

text \<open>
  Claim C2. The code on the input where the claim fails: the document holds one item,
  which is blocked, so no item is doing or todo and one item is blocked. The claim says
  exit code 1; \<^verbatim>\<open>run_loop\<close> returns 0, through the \<^verbatim>\<open>all_done\<close> check, and the
  branch that would return 1 is never reached (\<open>selector_none_only_if_all_done\<close>).
\<close>

theorem blocked_only_exit_0:
  "run_loop (ex_env 0 0) ''m'' 50 10 False
      (ex_world (ex_prd [] [ex_item ''a'' BLOCKED 3 (Some ''Agent error: Exit code 1'') None]))
     = (Inr 0,
        \<lparr>disk = Inr (ex_prd [] [ex_item ''a'' BLOCKED 3 (Some ''Agent error: Exit code 1'') None]),
         trace = [RunGit [''git'', ''rev-parse'', ''--git-dir''],
                  AppendProgress 0 ''=== Harness started (max_iterations=50, max_failures=10) ==='',
                  AppendProgress 1 ''=== All items complete ===''],
         ext = 2\<rparr>)
   \<and> count_by_state (ex_prd [] [ex_item ''a'' BLOCKED 3 (Some ''Agent error: Exit code 1'') None])
        BLOCKED = 1"
  by code_simp

section \<open>Invariants of the persisted document\<close>

lemma tracks_quiet: "tracks Q t0 w \<Longrightarrow> quiet w w' \<Longrightarrow> tracks Q t0 w'"
  by (auto simp: tracks_def quiet_def saved_append)

lemma tracks_process_item:
  assumes fresh: "\<And>p i. Q p \<Longrightarrow> get_next_item p = (Some i, False) \<Longrightarrow>
      Q (update_status i (\<lambda>s. s\<lparr>state := DOING, attempts := attempts s + 1\<rparr>) p)"
    and fin: "\<And>p i g. Q p \<Longrightarrow> i < length (items p) \<Longrightarrow>
      state (status (items p ! i)) = DOING \<Longrightarrow> finishes g \<Longrightarrow> Q (update_status i g p)"
    and tr: "tracks Q t0 w"
    and d: "disk w = Inr prd"
    and sel: "get_next_item prd = (Some i, r)"
  shows "tracks Q t0 (snd (process_item e model nc f i r prd w))"
proof -
  from tr d have q: "Q prd"
    by (simp add: tracks_def)
  from tr obtain es0 where t0: "trace w = t0 @ es0" and s0: "list_all Q (saved es0)"
    by (auto simp: tracks_def)
  have len: "i < length (items prd)"
    using get_next_item_Some(1) [OF sel] .
  obtain prd1 w1 where st: "start_item e i r prd w = (prd1, w1)"
    by (cases "start_item e i r prd w")
  have "Q prd1 \<and> i < length (items prd1) \<and> state (status (items prd1 ! i)) = DOING
      \<and> (\<exists>es1. trace w1 = t0 @ es1 \<and> list_all Q (saved es1))"
  proof (cases r)
    case True
    with st have "start_item e i True prd w = (prd1, w1)"
      by simp
    from start_item_resume [OF this] obtain t msg
      where p1: "prd1 = prd" and t1: "trace w1 = trace w @ [AppendProgress t msg]"
      by blast
    have "trace w1 = t0 @ (es0 @ [AppendProgress t msg])"
      by (simp add: t1 t0)
    moreover have "list_all Q (saved (es0 @ [AppendProgress t msg]))"
      using s0 by (simp add: saved_append)
    moreover have "state (status (items prd1 ! i)) = DOING"
      unfolding p1 using get_next_item_Some(2) [OF sel] True by simp
    ultimately show ?thesis
      using q len unfolding p1 by blast
  next
    case False
    with st have "start_item e i False prd w = (prd1, w1)"
      by simp
    from start_item_fresh [OF this] obtain t msg
      where p1: "prd1 = update_status i (\<lambda>s. s\<lparr>state := DOING, attempts := attempts s + 1\<rparr>) prd"
        and t1: "trace w1 = trace w @ [SavePrd prd1, AppendProgress t msg]"
      by blast
    have q1: "Q prd1"
      unfolding p1 using q sel False by (intro fresh) simp_all
    have "state (status (items prd1 ! i)) = DOING"
      using len by (simp add: p1 nth_update_status)
    moreover have "trace w1 = t0 @ (es0 @ [SavePrd prd1, AppendProgress t msg])"
      by (simp add: t1 t0)
    moreover have "list_all Q (saved (es0 @ [SavePrd prd1, AppendProgress t msg]))"
      using s0 q1 by (simp add: saved_append)
    moreover have "i < length (items prd1)"
      using len by (simp add: p1 length_update_status)
    ultimately show ?thesis
      using q1 by blast
  qed
  then obtain es1 where q1: "Q prd1" and len1: "i < length (items prd1)"
    and doing: "state (status (items prd1 ! i)) = DOING"
    and t1: "trace w1 = t0 @ es1" and s1: "list_all Q (saved es1)"
    by blast
  from process_item_unfold [OF st, of model nc f] obtain g es
    where d': "disk (snd (process_item e model nc f i r prd w)) = Inr (update_status i g prd1)"
      and g: "finishes g"
      and t': "trace (snd (process_item e model nc f i r prd w))
          = trace w1 @ RunAgent [''opencode'', ''-m'', model, ''run'',
                build_agent_prompt e (items prd1 ! i) prd1] # es"
      and s': "list_all (\<lambda>p. p = update_status i g prd1) (saved es)"
    by blast
  have q2: "Q (update_status i g prd1)"
    using q1 len1 doing g by (rule fin)
  with s' have "list_all Q (saved es)"
    by (auto simp: list_all_iff)
  with s1 have "list_all Q (saved (es1 @ RunAgent [''opencode'', ''-m'', model, ''run'',
                build_agent_prompt e (items prd1 ! i) prd1] # es))"
    by (simp add: saved_append)
  moreover have "trace (snd (process_item e model nc f i r prd w))
      = t0 @ (es1 @ RunAgent [''opencode'', ''-m'', model, ''run'',
                build_agent_prompt e (items prd1 ! i) prd1] # es)"
    by (simp add: t' t1)
  ultimately show ?thesis
    unfolding tracks_def using d' q2 by (auto simp del: append_assoc)
qed

lemma tracks_iteration:
  assumes fresh: "\<And>p i. Q p \<Longrightarrow> get_next_item p = (Some i, False) \<Longrightarrow>
      Q (update_status i (\<lambda>s. s\<lparr>state := DOING, attempts := attempts s + 1\<rparr>) p)"
    and fin: "\<And>p i g. Q p \<Longrightarrow> i < length (items p) \<Longrightarrow>
      state (status (items p ! i)) = DOING \<Longrightarrow> finishes g \<Longrightarrow> Q (update_status i g p)"
    and tr: "tracks Q t0 w"
  shows "tracks Q t0 (snd (iteration e model nc f w))"
proof (cases "load_prd w")
  case (Inl err)
  then have "iteration e model nc f w = (Raise err, w)"
    by (simp add: iteration_def)
  with tr show ?thesis
    by simp
next
  case (Inr prd)
  show ?thesis
  proof (cases "all_done prd")
    case True
    with Inr have "iteration e model nc f w
        = (Return 0, append_progress e ''=== All items complete ==='' w)"
      by (simp add: iteration_def)
    then show ?thesis
      using tracks_quiet [OF tr quiet_append_progress] by simp
  next
    case False
    then have "fst (get_next_item prd) \<noteq> None"
      by (simp add: selector_none_only_if_all_done)
    then obtain i r where sel: "get_next_item prd = (Some i, r)"
      by (cases "get_next_item prd") auto
    have it: "iteration e model nc f w = process_item e model nc f i r prd w"
      using Inr sel by (rule iteration_selected)
    have d: "disk w = Inr prd"
      using Inr by (simp add: load_prd_def)
    have "tracks Q t0 (snd (process_item e model nc f i r prd w))"
      using fresh fin tr d sel by (rule tracks_process_item [where Q = Q])
    then show ?thesis
      by (simp only: it)
  qed
qed

lemma tracks_loop:
  assumes fresh: "\<And>p i. Q p \<Longrightarrow> get_next_item p = (Some i, False) \<Longrightarrow>
      Q (update_status i (\<lambda>s. s\<lparr>state := DOING, attempts := attempts s + 1\<rparr>) p)"
    and fin: "\<And>p i g. Q p \<Longrightarrow> i < length (items p) \<Longrightarrow>
      state (status (items p ! i)) = DOING \<Longrightarrow> finishes g \<Longrightarrow> Q (update_status i g p)"
  shows "tracks Q t0 w \<Longrightarrow> tracks Q t0 (snd (loop e model mi mf nc it f w))"
proof (induction e model mi mf nc it f w rule: loop.induct)
  case (1 e model mi mf nc it f w)
  show ?case
  proof (cases "it < mi \<and> f < mf")
    case False
    have "tracks Q t0 (append_progress e
         (if f \<ge> mf
          then ''=== Stopped: Max failures ('' @ str_int mf @ '') reached ===''
          else ''=== Stopped: Max iterations ('' @ str_int mi @ '') reached ==='') w)"
      using "1.prems" quiet_append_progress by (rule tracks_quiet)
    then show ?thesis
      by (simp only: loop_limit [OF False] snd_conv)
  next
    case True
    obtain s w1 where it: "iteration e model nc f w = (s, w1)"
      by (cases "iteration e model nc f w")
    have "tracks Q t0 (snd (iteration e model nc f w))"
      using fresh fin "1.prems" by (rule tracks_iteration [where Q = Q])
    then have tr1: "tracks Q t0 w1"
      by (simp only: it snd_conv)
    have unf: "loop e model mi mf nc it f w
        = (case iteration e model nc f w of
           (Return code, w1) \<Rightarrow> (Inr code, w1)
         | (Raise err, w1) \<Rightarrow> (Inl err, w1)
         | (Continue failures1, w1) \<Rightarrow> loop e model mi mf nc (it + 1) failures1 w1)"
      by (subst loop.simps) (simp only: True if_True simp_thms)
    show ?thesis
    proof (cases s)
      case (Return c)
      then have "loop e model mi mf nc it f w = (Inr c, w1)"
        by (simp only: unf it prod.case step.case)
      with tr1 show ?thesis
        by simp
    next
      case (Raise err)
      then have "loop e model mi mf nc it f w = (Inl err, w1)"
        by (simp only: unf it prod.case step.case)
      with tr1 show ?thesis
        by simp
    next
      case (Continue f1)
      then have eq: "loop e model mi mf nc it f w = loop e model mi mf nc (it + 1) f1 w1"
        by (simp only: unf it prod.case step.case)
      have "tracks Q t0 (snd (loop e model mi mf nc (it + 1) f1 w1))"
        using True it [symmetric] Continue tr1 by (rule "1.IH")
      then show ?thesis
        by (simp only: eq)
    qed
  qed
qed

lemma tracks_run_loop:
  assumes fresh: "\<And>p i. Q p \<Longrightarrow> get_next_item p = (Some i, False) \<Longrightarrow>
      Q (update_status i (\<lambda>s. s\<lparr>state := DOING, attempts := attempts s + 1\<rparr>) p)"
    and fin: "\<And>p i g. Q p \<Longrightarrow> i < length (items p) \<Longrightarrow>
      state (status (items p ! i)) = DOING \<Longrightarrow> finishes g \<Longrightarrow> Q (update_status i g p)"
    and tr: "tracks Q t0 w"
  shows "tracks Q t0 (snd (run_loop e model mi mf nc w))"
proof -
  obtain r w1 where g: "is_git_repo e w = (r, w1)"
    by (cases "is_git_repo e w")
  have "tracks Q t0 (snd (is_git_repo e w))"
    using tr quiet_is_git_repo by (rule tracks_quiet)
  then have tr1: "tracks Q t0 w1"
    by (simp only: g snd_conv)
  show ?thesis
  proof (cases r)
    case False
    then have "run_loop e model mi mf nc w = (Inr 1, w1)"
      by (simp add: run_loop_def g)
    with tr1 show ?thesis
      by simp
  next
    case True
    show ?thesis
    proof (cases "load_prd w1")
      case (Inl err)
      with True have "run_loop e model mi mf nc w = (Inr 1, w1)"
        by (simp add: run_loop_def g)
      with tr1 show ?thesis
        by simp
    next
      case (Inr prd)
      let ?w2 = "append_progress e
                      (''=== Harness started (max_iterations='' @ str_int mi
                         @ '', max_failures='' @ str_int mf @ '') ==='') w1"
      have eq: "run_loop e model mi mf nc w = loop e model mi mf nc 0 0 ?w2"
        using True Inr by (simp add: run_loop_def g del: str_int_def)
      have "tracks Q t0 ?w2"
        using tr1 quiet_append_progress by (rule tracks_quiet)
      with fresh fin have "tracks Q t0 (snd (loop e model mi mf nc 0 0 ?w2))"
        by (rule tracks_loop [where Q = Q])
      then show ?thesis
        by (simp only: eq)
    qed
  qed
qed

lemma tracks_start: "disk w = Inr prd \<Longrightarrow> Q prd \<Longrightarrow> tracks Q (trace w) w"
  by (simp add: tracks_def)

lemma tracks_saves_since:
  "tracks Q (trace w) w' \<Longrightarrow> list_all Q (saves_since w w')"
  by (auto simp: tracks_def saves_since_def)

lemma tracks_disk: "tracks Q t0 w \<Longrightarrow> disk w = Inr prd \<Longrightarrow> Q prd"
  by (simp add: tracks_def)

subsection \<open>At most one item doing\<close>

lemma filter_update_none:
  "\<forall>x \<in> set xs. \<not> P x \<Longrightarrow> length (filter P (xs[i := y])) \<le> 1"
proof (induction xs arbitrary: i)
  case Nil
  then show ?case by simp
next
  case (Cons x xs)
  then show ?case
    by (cases i) (auto simp: filter_empty_conv dest: set_update_subset_insert [THEN subsetD])
qed

lemma filter_update_not:
  "\<not> P y \<Longrightarrow> length (filter P (xs[i := y])) \<le> length (filter P xs)"
proof (induction xs arbitrary: i)
  case Nil
  then show ?case by simp
next
  case (Cons x xs)
  show ?case
  proof (cases i)
    case 0
    with Cons.prems show ?thesis by simp
  next
    case (Suc k)
    with Cons.IH [OF Cons.prems, of k] show ?thesis by simp
  qed
qed

lemma at_most_one_doing_fresh:
  assumes "get_next_item p = (Some i, False)"
  shows "at_most_one_doing
    (update_status i (\<lambda>s. s\<lparr>state := DOING, attempts := attempts s + 1\<rparr>) p)"
  unfolding at_most_one_doing_def items_update_status
  using get_next_item_Some(4) [OF assms] by (intro filter_update_none) simp

lemma at_most_one_doing_finish:
  assumes "at_most_one_doing p" and "finishes g"
  shows "at_most_one_doing (update_status i g p)"
proof -
  have "state (g (status (items p ! i))) \<noteq> DOING"
    using assms(2) by (simp add: finishes_def)
  then have "length (filter (\<lambda>item. state (status item) = DOING)
        ((items p)[i := (items p ! i)\<lparr>status := g (status (items p ! i))\<rparr>]))
      \<le> length (filter (\<lambda>item. state (status item) = DOING) (items p))"
    by (intro filter_update_not) simp
  with assms(1) show ?thesis
    unfolding at_most_one_doing_def items_update_status by linarith
qed

text \<open>
  Claim C7. For every document on disk with at most one item doing, every document the
  harness writes with \<^verbatim>\<open>save_prd\<close> has at most one item doing: in one pass of the loop
  body from any such document, and in a whole run of \<^verbatim>\<open>run_loop\<close>.
\<close>

theorem at_most_one_doing_persisted:
  assumes "disk w = Inr prd" and "at_most_one_doing prd"
  shows "list_all at_most_one_doing
        (saves_since w (snd (iteration e model no_commit failures w)))
    \<and> list_all at_most_one_doing
        (saves_since w (snd (run_loop e model max_iterations max_failures no_commit w)))"
proof -
  have fresh: "\<And>p i. at_most_one_doing p \<Longrightarrow> get_next_item p = (Some i, False) \<Longrightarrow>
      at_most_one_doing (update_status i (\<lambda>s. s\<lparr>state := DOING, attempts := attempts s + 1\<rparr>) p)"
    by (rule at_most_one_doing_fresh)
  have fin: "\<And>p i g. at_most_one_doing p \<Longrightarrow> i < length (items p) \<Longrightarrow>
      state (status (items p ! i)) = DOING \<Longrightarrow> finishes g \<Longrightarrow>
      at_most_one_doing (update_status i g p)"
    by (rule at_most_one_doing_finish)
  have tr: "tracks at_most_one_doing (trace w) w"
    using assms by (rule tracks_start)
  have "tracks at_most_one_doing (trace w) (snd (iteration e model no_commit failures w))"
    using fresh fin tr by (rule tracks_iteration [where Q = at_most_one_doing])
  moreover have "tracks at_most_one_doing (trace w)
      (snd (run_loop e model max_iterations max_failures no_commit w))"
    using fresh fin tr by (rule tracks_run_loop [where Q = at_most_one_doing])
  ultimately show ?thesis
    by (simp add: tracks_saves_since)
qed

theorem at_most_one_doing_persisted_witness:
  "at_most_one_doing (ex_prd [''false''] [ex_item ''a'' DOING 2 None None,
      ex_item ''b'' TODO 0 None None])
   \<and> length (saves_since
        (ex_world (ex_prd [''false''] [ex_item ''a'' DOING 2 None None,
           ex_item ''b'' TODO 0 None None]))
        (snd (run_loop (ex_env 0 0) ''m'' 50 10 True
           (ex_world (ex_prd [''false''] [ex_item ''a'' DOING 2 None None,
              ex_item ''b'' TODO 0 None None]))))) = 9
   \<and> list_all at_most_one_doing (saves_since
        (ex_world (ex_prd [''false''] [ex_item ''a'' DOING 2 None None,
           ex_item ''b'' TODO 0 None None]))
        (snd (run_loop (ex_env 0 0) ''m'' 50 10 True
           (ex_world (ex_prd [''false''] [ex_item ''a'' DOING 2 None None,
              ex_item ''b'' TODO 0 None None])))))
   \<and> saves_since
        (ex_world (ex_prd [''false''] [ex_item ''a'' DOING 2 None None,
           ex_item ''b'' TODO 0 None None]))
        (snd (iteration (ex_env 0 0) ''m'' True 0
           (ex_world (ex_prd [''false''] [ex_item ''a'' DOING 2 None None,
              ex_item ''b'' TODO 0 None None]))))
       = [ex_prd [''false''] [ex_item ''a'' TODO 2
            (Some ''Verification failed: false: failed'') None, ex_item ''b'' TODO 0 None None]]"
proof -
  let ?p = "ex_prd [''false''] [ex_item ''a'' DOING 2 None None, ex_item ''b'' TODO 0 None None]"
  have a1: "disk (ex_world ?p) = Inr ?p"
    by (simp add: ex_world_def)
  have a2: "at_most_one_doing ?p"
    by code_simp
  have n: "length (saves_since (ex_world ?p)
        (snd (run_loop (ex_env 0 0) ''m'' 50 10 True (ex_world ?p)))) = 9"
    by code_simp
  have it: "saves_since (ex_world ?p) (snd (iteration (ex_env 0 0) ''m'' True 0 (ex_world ?p)))
       = [ex_prd [''false''] [ex_item ''a'' TODO 2
            (Some ''Verification failed: false: failed'') None, ex_item ''b'' TODO 0 None None]]"
    by code_simp
  show ?thesis
    using at_most_one_doing_persisted [OF a1 a2, of "ex_env 0 0" "''m''" True 0 50 10] a2 n it
    by blast
qed

subsection \<open>The completion timestamp\<close>

lemma item_ok_update_status:
  assumes "item_ok j p"
    and "i = j \<Longrightarrow> done_at_iff_done (g (status (items p ! j)))"
  shows "item_ok j (update_status i g p)"
proof (cases "i = j")
  case True
  with assms show ?thesis
    by (simp add: item_ok_def length_update_status nth_update_status)
next
  case False
  with assms(1) show ?thesis
    by (simp add: item_ok_def length_update_status nth_update_status_other)
qed

lemma item_ok_fresh:
  assumes "item_ok j p" and "get_next_item p = (Some i, False)"
  shows "item_ok j (update_status i (\<lambda>s. s\<lparr>state := DOING, attempts := attempts s + 1\<rparr>) p)"
proof (rule item_ok_update_status [OF assms(1)])
  assume "i = j"
  with get_next_item_Some(3) [OF assms(2)] have "state (status (items p ! j)) = TODO"
    by simp
  with assms(1) show "done_at_iff_done ((status (items p ! j))
      \<lparr>state := DOING, attempts := attempts (status (items p ! j)) + 1\<rparr>)"
    by (simp add: item_ok_def done_at_iff_done_def)
qed

lemma item_ok_finish:
  assumes "item_ok j p" and "state (status (items p ! i)) = DOING" and "finishes g"
  shows "item_ok j (update_status i g p)"
proof (rule item_ok_update_status [OF assms(1)])
  assume "i = j"
  with assms(1,2) have none: "done_at (status (items p ! j)) = None"
    by (simp add: item_ok_def done_at_iff_done_def)
  from assms(3) have "state (g (status (items p ! j))) = DONE
        \<and> done_at (g (status (items p ! j))) \<noteq> None
      \<or> state (g (status (items p ! j))) \<noteq> DONE
        \<and> done_at (g (status (items p ! j))) = done_at (status (items p ! j))"
    by (simp add: finishes_def)
  with none show "done_at_iff_done (g (status (items p ! j)))"
    by (auto simp: done_at_iff_done_def)
qed

text \<open>
  Claim C6, as amended. For every item that satisfies, in the document on disk, that
  \<^verbatim>\<open>done_at\<close> is present if and only if the state is done, the same holds of that item
  in every document the harness writes with \<^verbatim>\<open>save_prd\<close>, that is after every status
  transition of the loop: in one pass of the loop body and in a whole run.
\<close>

theorem done_at_iff_done_preserved:
  assumes "disk w = Inr prd" and "item_ok j prd"
  shows "list_all (item_ok j) (saves_since w (snd (iteration e model no_commit failures w)))
    \<and> list_all (item_ok j)
        (saves_since w (snd (run_loop e model max_iterations max_failures no_commit w)))"
proof -
  have fresh: "\<And>p i. item_ok j p \<Longrightarrow> get_next_item p = (Some i, False) \<Longrightarrow>
      item_ok j (update_status i (\<lambda>s. s\<lparr>state := DOING, attempts := attempts s + 1\<rparr>) p)"
    by (rule item_ok_fresh)
  have fin: "\<And>p i g. item_ok j p \<Longrightarrow> i < length (items p) \<Longrightarrow>
      state (status (items p ! i)) = DOING \<Longrightarrow> finishes g \<Longrightarrow>
      item_ok j (update_status i g p)"
    by (rule item_ok_finish)
  have tr: "tracks (item_ok j) (trace w) w"
    using assms by (rule tracks_start)
  have "tracks (item_ok j) (trace w) (snd (iteration e model no_commit failures w))"
    using fresh fin tr by (rule tracks_iteration [where Q = "item_ok j"])
  moreover have "tracks (item_ok j) (trace w)
      (snd (run_loop e model max_iterations max_failures no_commit w))"
    using fresh fin tr by (rule tracks_run_loop [where Q = "item_ok j"])
  ultimately show ?thesis
    by (simp add: tracks_saves_since)
qed

theorem done_at_iff_done_preserved_witness:
  "item_ok 0 (ex_prd [] [ex_item ''a'' TODO 0 None None, ex_item ''b'' DONE 1 None (Some 3)])
   \<and> saves_since
        (ex_world (ex_prd [] [ex_item ''a'' TODO 0 None None, ex_item ''b'' DONE 1 None (Some 3)]))
        (snd (run_loop (ex_env 0 0) ''m'' 50 10 True
           (ex_world (ex_prd [] [ex_item ''a'' TODO 0 None None,
              ex_item ''b'' DONE 1 None (Some 3)]))))
       = [ex_prd [] [ex_item ''a'' DOING 1 None None, ex_item ''b'' DONE 1 None (Some 3)],
          ex_prd [] [ex_item ''a'' DONE 1 None (Some 2), ex_item ''b'' DONE 1 None (Some 3)]]
   \<and> list_all (item_ok 0) (saves_since
        (ex_world (ex_prd [] [ex_item ''a'' TODO 0 None None, ex_item ''b'' DONE 1 None (Some 3)]))
        (snd (run_loop (ex_env 0 0) ''m'' 50 10 True
           (ex_world (ex_prd [] [ex_item ''a'' TODO 0 None None,
              ex_item ''b'' DONE 1 None (Some 3)])))))"
proof -
  let ?p = "ex_prd [] [ex_item ''a'' TODO 0 None None, ex_item ''b'' DONE 1 None (Some 3)]"
  have a1: "disk (ex_world ?p) = Inr ?p"
    by (simp add: ex_world_def)
  have a2: "item_ok 0 ?p"
    by code_simp
  have s: "saves_since (ex_world ?p) (snd (run_loop (ex_env 0 0) ''m'' 50 10 True (ex_world ?p)))
       = [ex_prd [] [ex_item ''a'' DOING 1 None None, ex_item ''b'' DONE 1 None (Some 3)],
          ex_prd [] [ex_item ''a'' DONE 1 None (Some 2), ex_item ''b'' DONE 1 None (Some 3)]]"
    by code_simp
  show ?thesis
    using done_at_iff_done_preserved [OF a1 a2, of "ex_env 0 0" "''m''" True 0 50 10] a2 s
    by blast
qed

text \<open>
  Claim C6 as stated fails for an item that is loaded with a timestamp although it is
  not done: the loop never clears \<^verbatim>\<open>done_at\<close>, so after the transition to doing, and
  after the transition back to todo when the agent fails, the persisted item has a
  timestamp and is not done.
\<close>

theorem done_at_iff_done_counterexample:
  "saves_since (ex_world (ex_prd [] [ex_item ''a'' TODO 0 None (Some 7)]))
     (snd (iteration (ex_env 1 0) ''m'' True 0
        (ex_world (ex_prd [] [ex_item ''a'' TODO 0 None (Some 7)]))))
     = [ex_prd [] [ex_item ''a'' DOING 1 None (Some 7)],
        ex_prd [] [ex_item ''a'' TODO 1 (Some ''Agent error: Exit code 1'') (Some 7)]]
   \<and> \<not> done_at_iff_done (status (ex_item ''a'' DOING 1 None (Some 7)))
   \<and> \<not> done_at_iff_done (status (ex_item ''a'' TODO 1 (Some ''Agent error: Exit code 1'') (Some 7)))"
  by code_simp

end
